theory Spec2Isabelle
  imports Complex_Main "HOL-Library.Word" "HOL-Library.Monad_Syntax" "HOL-Library.Sublist"
begin

section \<open>Audio container encoder: \<open>bufferToWav\<close>\<close>

text \<open>
  The encoder is the TypeScript function \<open>bufferToWav(abuffer, len)\<close>. It allocates an
  \<open>ArrayBuffer\<close> of \<open>len * numOfChan * 2 + 44\<close> zero bytes, writes the 44-byte RIFF/WAVE
  header through a \<open>DataView\<close> with the running position \<open>pos\<close>, and then writes the
  samples in a \<open>while\<close> loop over \<open>pos\<close> with a write cursor \<open>offset\<close>.

  Modelling decisions:
  \<^item> counts (\<open>len\<close>, the number of channels, the sample rate) are natural numbers, and
    JavaScript's arithmetic on them is taken as exact (it is below \<open>2 ^ 53\<close>);
  \<^item> a sample is a JavaScript number read from a \<open>Float32Array\<close>: a finite value, an
    infinity or NaN. A finite value is a rational; on 32-bit floats in \<open>[-1, 1]\<close> the
    products with 32767 and 32768 and the test \<open>0.5 + s < 0\<close> are exact in double
    precision, so rational arithmetic computes what the code computes;
  \<^item> a \<open>DataView\<close> write outside the buffer throws \<open>RangeError\<close>: the result \<open>None\<close>;
  \<^item> the returned \<open>Blob\<close> is the byte sequence of the buffer.
\<close>

type_synonym byte = "8 word"

datatype jsnumber = Fin rat | PosInf | NegInf | NaN

record AudioBuffer =
  sampleRate :: nat
  channelData :: "jsnumber list list"

definition numberOfChannels :: "AudioBuffer \<Rightarrow> nat" where
  "numberOfChannels abuffer = length (channelData abuffer)"

definition getChannelData :: "AudioBuffer \<Rightarrow> nat \<Rightarrow> jsnumber list" where
  "getChannelData abuffer i = channelData abuffer ! i"

text \<open>Reading a typed array beyond its end gives \<open>undefined\<close>, here \<open>None\<close>.\<close>

definition element :: "jsnumber list \<Rightarrow> nat \<Rightarrow> jsnumber option" where
  "element xs p = (if p < length xs then Some (xs ! p) else None)"

text \<open>\<open>ToNumber\<close>: \<open>undefined\<close> becomes NaN.\<close>

definition ToNumber :: "jsnumber option \<Rightarrow> jsnumber" where
  "ToNumber v = (case v of None \<Rightarrow> NaN | Some x \<Rightarrow> x)"

text \<open>\<open>Math.min\<close> and \<open>Math.max\<close> with a finite first argument; NaN is contagious.\<close>

definition Math_min :: "rat \<Rightarrow> jsnumber \<Rightarrow> jsnumber" where
  "Math_min a x = (case x of Fin q \<Rightarrow> Fin (min a q) | PosInf \<Rightarrow> Fin a
                   | NegInf \<Rightarrow> NegInf | NaN \<Rightarrow> NaN)"

definition Math_max :: "rat \<Rightarrow> jsnumber \<Rightarrow> jsnumber" where
  "Math_max a x = (case x of Fin q \<Rightarrow> Fin (max a q) | PosInf \<Rightarrow> PosInf
                   | NegInf \<Rightarrow> Fin a | NaN \<Rightarrow> NaN)"

text \<open>\<open>a + x < 0\<close> for a finite \<open>a\<close>: every comparison with NaN is false.\<close>

definition plus_lt_zero :: "rat \<Rightarrow> jsnumber \<Rightarrow> bool" where
  "plus_lt_zero a x = (case x of Fin q \<Rightarrow> a + q < 0 | PosInf \<Rightarrow> False
                       | NegInf \<Rightarrow> True | NaN \<Rightarrow> False)"

text \<open>\<open>x * k\<close> for a positive finite \<open>k\<close>.\<close>

definition times_pos :: "jsnumber \<Rightarrow> rat \<Rightarrow> jsnumber" where
  "times_pos x k = (case x of Fin q \<Rightarrow> Fin (q * k) | PosInf \<Rightarrow> PosInf
                    | NegInf \<Rightarrow> NegInf | NaN \<Rightarrow> NaN)"

text \<open>Truncation toward zero.\<close>

definition trunc :: "rat \<Rightarrow> int" where
  "trunc q = (if 0 \<le> q then \<lfloor>q\<rfloor> else \<lceil>q\<rceil>)"

text \<open>
  \<open>x | 0\<close> is \<open>ToInt32\<close>: NaN and the infinities give 0, a finite value is truncated and
  reduced modulo \<open>2 ^ 32\<close> into the signed range.
\<close>

definition ToInt32 :: "jsnumber \<Rightarrow> int" where
  "ToInt32 x = (case x of Fin q \<Rightarrow> sint (word_of_int (trunc q) :: 32 word)
                | PosInf \<Rightarrow> 0 | NegInf \<Rightarrow> 0 | NaN \<Rightarrow> 0)"

text \<open>
  The two statements of the loop body that turn \<open>channels[i][pos]\<close> into the integer
  handed to \<open>setInt16\<close>:
  \<^verbatim>\<open>sample = Math.max(-1, Math.min(1, channels[i][pos]));\<close>
  \<^verbatim>\<open>sample = (0.5 + sample < 0 ? sample * 32768 : sample * 32767)|0;\<close>
\<close>

definition quantize :: "jsnumber option \<Rightarrow> int" where
  "quantize v =
     (let sample = Math_max (- 1) (Math_min 1 (ToNumber v))
      in ToInt32 (if plus_lt_zero (1 / 2) sample then times_pos sample 32768
                  else times_pos sample 32767))"

subsection \<open>The \<open>DataView\<close>\<close>

text \<open>The \<open>k\<close> low bytes of a word, least significant first.\<close>

definition le_bytes :: "nat \<Rightarrow> 'a::len word \<Rightarrow> byte list" where
  "le_bytes k w = map (\<lambda>j. ucast (drop_bit (8 * j) w)) [0..<k]"

text \<open>Writing a run of bytes in place, one index after the other.\<close>

fun store :: "byte list \<Rightarrow> nat \<Rightarrow> byte list \<Rightarrow> byte list" where
  "store v p [] = v"
| "store v p (b # bs) = store (v[p := b]) (Suc p) bs"

text \<open>
  \<open>view.setUint32(byteOffset, value, true)\<close>, \<open>view.setUint16(byteOffset, value, true)\<close> and
  \<open>view.setInt16(byteOffset, value, true)\<close>: the value is reduced modulo \<open>2 ^ 32\<close>
  (\<open>2 ^ 16\<close>) and stored little-endian; a write that does not fit the buffer throws.
\<close>

definition DataView_setUint32 :: "nat \<Rightarrow> nat \<Rightarrow> byte list \<Rightarrow> byte list option" where
  "DataView_setUint32 byteOffset val v =
     (if byteOffset + 4 \<le> length v
      then Some (store v byteOffset (le_bytes 4 (word_of_nat val :: 32 word)))
      else None)"

definition DataView_setUint16 :: "nat \<Rightarrow> nat \<Rightarrow> byte list \<Rightarrow> byte list option" where
  "DataView_setUint16 byteOffset val v =
     (if byteOffset + 2 \<le> length v
      then Some (store v byteOffset (le_bytes 2 (word_of_nat val :: 16 word)))
      else None)"

definition DataView_setInt16 :: "nat \<Rightarrow> int \<Rightarrow> byte list \<Rightarrow> byte list option" where
  "DataView_setInt16 byteOffset val v =
     (if byteOffset + 2 \<le> length v
      then Some (store v byteOffset (le_bytes 2 (word_of_int val :: 16 word)))
      else None)"

subsection \<open>The encoder's state and its local functions\<close>

record enc_state =
  view :: "byte list"
  pos :: nat
  offset :: nat

text \<open>The closures \<open>setUint16\<close> and \<open>setUint32\<close>: write at \<open>pos\<close>, then advance \<open>pos\<close>.\<close>

definition setUint16 :: "nat \<Rightarrow> enc_state \<Rightarrow> enc_state option" where
  "setUint16 d s =
     (case DataView_setUint16 (pos s) d (view s) of
        None \<Rightarrow> None
      | Some v \<Rightarrow> Some (s\<lparr>view := v, pos := pos s + 2\<rparr>))"

definition setUint32 :: "nat \<Rightarrow> enc_state \<Rightarrow> enc_state option" where
  "setUint32 d s =
     (case DataView_setUint32 (pos s) d (view s) of
        None \<Rightarrow> None
      | Some v \<Rightarrow> Some (s\<lparr>view := v, pos := pos s + 4\<rparr>))"

text \<open>The thirteen header writes, in the order of the source.\<close>

definition write_header :: "AudioBuffer \<Rightarrow> nat \<Rightarrow> nat \<Rightarrow> enc_state \<Rightarrow> enc_state option" where
  "write_header abuffer numOfChan length0 s0 = do {
     s \<leftarrow> setUint32 0x46464952 s0;
     s \<leftarrow> setUint32 (length0 - 8) s;
     s \<leftarrow> setUint32 0x45564157 s;
     s \<leftarrow> setUint32 0x20746d66 s;
     s \<leftarrow> setUint32 16 s;
     s \<leftarrow> setUint16 1 s;
     s \<leftarrow> setUint16 numOfChan s;
     s \<leftarrow> setUint32 (sampleRate abuffer) s;
     s \<leftarrow> setUint32 (sampleRate abuffer * 2 * numOfChan) s;
     s \<leftarrow> setUint16 (numOfChan * 2) s;
     s \<leftarrow> setUint16 16 s;
     s \<leftarrow> setUint32 0x61746164 s;
     s \<leftarrow> setUint32 (length0 - pos s - 4) s;
     Some s
   }"

text \<open>
  The inner loop \<open>for(i = 0; i < numOfChan; i++)\<close>: one sample of every channel, read at
  index \<open>pos\<close> and written at byte \<open>44 + offset\<close>.
\<close>

function interleave :: "jsnumber list list \<Rightarrow> nat \<Rightarrow> nat \<Rightarrow> enc_state \<Rightarrow> enc_state option" where
  "interleave channels numOfChan i s =
     (if i < numOfChan then
        (case DataView_setInt16 (44 + offset s) (quantize (element (channels ! i) (pos s))) (view s) of
           None \<Rightarrow> None
         | Some v \<Rightarrow> interleave channels numOfChan (i + 1) (s\<lparr>view := v, offset := offset s + 2\<rparr>))
      else Some s)"
  by pat_completeness auto
termination
  by (relation "measure (\<lambda>(channels, numOfChan, i, s). numOfChan - i)") auto

declare interleave.simps [simp del]

lemma interleave_pos: "interleave channels numOfChan i s = Some s' \<Longrightarrow> pos s' = pos s"
proof (induction channels numOfChan i s rule: interleave.induct)
  case (1 channels numOfChan i s)
  show ?case
  proof (cases "i < numOfChan")
    case True
    with "1.prems" obtain v where
      v: "DataView_setInt16 (44 + offset s) (quantize (element (channels ! i) (pos s))) (view s) = Some v"
      and r: "interleave channels numOfChan (i + 1) (s\<lparr>view := v, offset := offset s + 2\<rparr>) = Some s'"
      by (subst (asm) interleave.simps) (auto split: option.splits)
    from "1.IH" [OF True v r] show ?thesis by simp
  next
    case False
    with "1.prems" show ?thesis by (subst (asm) interleave.simps) simp
  qed
qed

text \<open>The outer loop \<open>while(pos < len)\<close>, with \<open>pos++\<close> after each frame.\<close>

function write_frames :: "jsnumber list list \<Rightarrow> nat \<Rightarrow> nat \<Rightarrow> enc_state \<Rightarrow> enc_state option" where
  "write_frames channels numOfChan len s =
     (if pos s < len then
        (case interleave channels numOfChan 0 s of
           None \<Rightarrow> None
         | Some s' \<Rightarrow> write_frames channels numOfChan len (s'\<lparr>pos := pos s' + 1\<rparr>))
      else Some s)"
  by pat_completeness auto
termination
  by (relation "measure (\<lambda>(channels, numOfChan, len, s). len - pos s)")
     (auto dest: interleave_pos)

declare write_frames.simps [simp del]

text \<open>
  The whole function. \<open>channels\<close> is filled by
  \<open>for(i = 0; i < abuffer.numberOfChannels; i++) channels.push(abuffer.getChannelData(i))\<close>.
\<close>

definition bufferToWav :: "AudioBuffer \<Rightarrow> nat \<Rightarrow> byte list option" where
  "bufferToWav abuffer len =
     (let numOfChan = numberOfChannels abuffer;
          length0 = len * numOfChan * 2 + 44;
          buffer = replicate length0 (0 :: byte);
          s0 = \<lparr>view = buffer, pos = 0, offset = 0\<rparr>
      in do {
        s \<leftarrow> write_header abuffer numOfChan length0 s0;
        let channels = map (getChannelData abuffer) [0..<numberOfChannels abuffer];
        s \<leftarrow> write_frames channels numOfChan len s;
        Some (view s)
      })"

section \<open>Relay gateway: \<open>callGemini\<close>\<close>

text \<open>
  The relay is the HTTPS function \<open>callGemini\<close>: the CORS middleware wraps an asynchronous
  callback that checks the method, verifies the bearer token, resolves the API key,
  validates the body, calls the generation API and sends the response.

  Modelling decisions:
  \<^item> a JavaScript value of the request body, of the configuration and of the upstream
    result is a \<open>jsvalue\<close>; \<open>JUndefined\<close> is \<open>undefined\<close>;
  \<^item> the two awaited external calls are functions of an \<open>environment\<close>:
    \<open>verifyIdToken\<close> (true when the promise resolves, false when it rejects) and
    \<open>generateContent\<close> (\<open>Inr\<close> the result, \<open>Inl\<close> the \<open>message\<close> of the thrown error);
  \<^item> the outcome of a request is the status and the object that were sent, and the list
    of external calls that were issued, in the order of their issue;
  \<^item> a \<open>TypeError\<close> thrown inside the outer \<open>try\<close> is caught by its \<open>catch\<close>; the text of
    its message is the engine's, a field of the environment.
\<close>

datatype jsvalue =
    JUndefined
  | JNull
  | JBool bool
  | JNumber rat
  | JString string
  | JArray "jsvalue list"
  | JObject "(string \<times> jsvalue) list"

text \<open>JavaScript truthiness, as \<open>!x\<close> and \<open>a || b\<close> test it.\<close>

fun truthy :: "jsvalue \<Rightarrow> bool" where
  "truthy JUndefined = False"
| "truthy JNull = False"
| "truthy (JBool b) = b"
| "truthy (JNumber q) = (q \<noteq> 0)"
| "truthy (JString s) = (s \<noteq> [])"
| "truthy (JArray xs) = True"
| "truthy (JObject kvs) = True"

definition or_js :: "jsvalue \<Rightarrow> jsvalue \<Rightarrow> jsvalue" where
  "or_js a b = (if truthy a then a else b)"

text \<open>
  Reading a property, for the six names the relay reads (\<open>model\<close>, \<open>contents\<close>, \<open>config\<close>,
  \<open>text\<close>, \<open>candidates\<close>, \<open>usageMetadata\<close>): on \<open>undefined\<close> and \<open>null\<close> it throws a
  \<open>TypeError\<close> (\<open>None\<close>), on an object it is the field or \<open>undefined\<close>, on every other
  value \<open>undefined\<close>.
\<close>

fun getProp :: "jsvalue \<Rightarrow> string \<Rightarrow> jsvalue option" where
  "getProp JUndefined k = None"
| "getProp JNull k = None"
| "getProp (JObject kvs) k = Some (case map_of kvs k of None \<Rightarrow> JUndefined | Some v \<Rightarrow> v)"
| "getProp v k = Some JUndefined"

text \<open>\<open>s.split(sep)\<close>, scanning from the left; \<open>acc\<close> is the piece being collected.\<close>

function split_js :: "string \<Rightarrow> string \<Rightarrow> string \<Rightarrow> string list" where
  "split_js sep acc [] = [acc]"
| "split_js sep acc (c # cs) =
     (if sep \<noteq> [] \<and> prefix sep (c # cs)
      then acc # split_js sep [] (drop (length sep) (c # cs))
      else split_js sep (acc @ [c]) cs)"
  by pat_completeness auto
termination
  by (relation "measure (\<lambda>(sep, acc, s). length s)") auto

text \<open>Array indexing: \<open>undefined\<close> (\<open>None\<close>) beyond the end.\<close>

definition index_js :: "'a list \<Rightarrow> nat \<Rightarrow> 'a option" where
  "index_js xs i = (if i < length xs then Some (xs ! i) else None)"

text \<open>
  The request, as far as the function reads it: \<open>request.method\<close> (the field
  \<open>http_method\<close>), \<open>request.headers.authorization\<close> and \<open>request.body\<close>.
\<close>

record request =
  http_method :: string
  authorization :: "string option"
  body :: jsvalue

datatype event = VerifyIdToken "string option" | GenerateContent jsvalue jsvalue

record environment =
  verifyIdToken :: "string \<Rightarrow> bool"
  config_apikey :: jsvalue
  env_GEMINI_API_KEY :: jsvalue
  generateContent :: "jsvalue \<Rightarrow> jsvalue \<Rightarrow> jsvalue + jsvalue"
  typeErrorMessage :: jsvalue

record outcome =
  status :: nat
  content :: jsvalue
  calls :: "event list"

text \<open>\<open>response.status(code).send(obj)\<close> (or \<open>.json(obj)\<close>) after the external calls \<open>evs\<close>.\<close>

definition send :: "nat \<Rightarrow> jsvalue \<Rightarrow> event list \<Rightarrow> outcome" where
  "send code obj evs = \<lparr>status = code, content = obj, calls = evs\<rparr>"

text \<open>The outer \<open>catch\<close>.\<close>

definition failed :: "jsvalue \<Rightarrow> event list \<Rightarrow> outcome" where
  "failed msg evs =
     send 500 (JObject [(''error'', JString ''Failed to process request''), (''message'', msg)]) evs"

text \<open>\<open>authHeader.split("Bearer ")[1]\<close>\<close>

definition idToken_of :: "string \<Rightarrow> string option" where
  "idToken_of authHeader = index_js (split_js ''Bearer '' [] authHeader) 1"

text \<open>\<open>functions.config().gemini?.apikey || process.env.GEMINI_API_KEY\<close>\<close>

definition apiKey_of :: "environment \<Rightarrow> jsvalue" where
  "apiKey_of env = or_js (config_apikey env) (env_GEMINI_API_KEY env)"

text \<open>\<open>const { model, contents, config } = request.body\<close>\<close>

definition destructure :: "jsvalue \<Rightarrow> (jsvalue \<times> jsvalue \<times> jsvalue) option" where
  "destructure b =
     (case getProp b ''model'' of None \<Rightarrow> None | Some model \<Rightarrow>
      (case getProp b ''contents'' of None \<Rightarrow> None | Some contents \<Rightarrow>
       (case getProp b ''config'' of None \<Rightarrow> None | Some config \<Rightarrow>
          Some (model, contents, config))))"

text \<open>The argument of \<open>ai.models.generateContent\<close>.\<close>

definition params_of :: "jsvalue \<Rightarrow> jsvalue \<Rightarrow> jsvalue \<Rightarrow> jsvalue" where
  "params_of model contents config =
     JObject [(''model'', model), (''contents'', contents), (''config'', or_js config (JObject []))]"

text \<open>The object given to \<open>response.status(200).json\<close>; reading a field of the result may throw.\<close>

definition extract_fields :: "jsvalue \<Rightarrow> jsvalue option" where
  "extract_fields result =
     (case getProp result ''text'' of None \<Rightarrow> None | Some text \<Rightarrow>
      (case getProp result ''candidates'' of None \<Rightarrow> None | Some candidates \<Rightarrow>
       (case getProp result ''usageMetadata'' of None \<Rightarrow> None | Some usageMetadata \<Rightarrow>
          Some (JObject [(''text'', text), (''candidates'', candidates),
                         (''usageMetadata'', usageMetadata)]))))"

text \<open>The callback given to the CORS middleware, statement by statement.\<close>

definition handler :: "environment \<Rightarrow> request \<Rightarrow> outcome" where
  "handler env request =
     (if http_method request \<noteq> ''POST''
      then send 405 (JObject [(''error'', JString ''Method Not Allowed'')]) []
      else
        (case authorization request of
           None \<Rightarrow> send 401 (JObject [(''error'', JString ''Unauthorized - No token provided'')]) []
         | Some authHeader \<Rightarrow>
             if authHeader = [] \<or> \<not> prefix ''Bearer '' authHeader
             then send 401 (JObject [(''error'', JString ''Unauthorized - No token provided'')]) []
             else
               let idToken = idToken_of authHeader;
                   evs = [VerifyIdToken idToken]
               in if \<not> (case idToken of None \<Rightarrow> False | Some t \<Rightarrow> verifyIdToken env t)
                  then send 401 (JObject [(''error'', JString ''Unauthorized - Invalid token'')]) evs
                  else
                    let apiKey = apiKey_of env
                    in if \<not> truthy apiKey
                       then send 500 (JObject [(''error'', JString ''API key not configured'')]) evs
                       else
                         (case destructure (body request) of
                            None \<Rightarrow> failed (typeErrorMessage env) evs
                          | Some (model, contents, config) \<Rightarrow>
                              if \<not> truthy model \<or> \<not> truthy contents
                              then send 400 (JObject [(''error'',
                                     JString ''Missing required parameters: model and contents'')]) evs
                              else
                                let params = params_of model contents config;
                                    evs2 = evs @ [GenerateContent apiKey params]
                                in (case generateContent env apiKey params of
                                      Inl message \<Rightarrow> failed message evs2
                                    | Inr result \<Rightarrow>
                                        (case extract_fields result of
                                           None \<Rightarrow> failed (typeErrorMessage env) evs2
                                         | Some obj \<Rightarrow> send 200 obj evs2)))))"

text \<open>
  \<open>corsHandler\<close> is \<open>cors({ origin: true })\<close>, the middleware of the \<open>cors\<close> package, a
  dependency of the repository. With these options it adds the CORS headers to every
  response; a request whose upper-cased method is \<open>OPTIONS\<close> is a preflight, which the
  middleware answers itself with status 204 and no body (\<open>preflightContinue\<close> is off),
  without calling the callback; for every other request it calls the callback.
\<close>

definition toUpperCase :: "string \<Rightarrow> string" where
  "toUpperCase s =
     map (\<lambda>c. case map_of (zip ''abcdefghijklmnopqrstuvwxyz'' ''ABCDEFGHIJKLMNOPQRSTUVWXYZ'') c of
                 None \<Rightarrow> c | Some u \<Rightarrow> u) s"

definition corsHandler :: "request \<Rightarrow> outcome \<Rightarrow> outcome" where
  "corsHandler request next =
     (if toUpperCase (http_method request) = ''OPTIONS''
      then \<lparr>status = 204, content = JUndefined, calls = []\<rparr>
      else next)"

definition callGemini :: "environment \<Rightarrow> request \<Rightarrow> outcome" where
  "callGemini env request = corsHandler request (handler env request)"

section \<open>The container layout and the sample rule, as the specification words them\<close>

text \<open>ASCII text, and unsigned integers of 32 and 16 bits, least significant byte first.\<close>

definition ascii :: "string \<Rightarrow> byte list" where
  "ascii s = map (\<lambda>c. of_nat (of_char c)) s"

definition uint32_le :: "nat \<Rightarrow> byte list" where
  "uint32_le n = [of_nat (n mod 256), of_nat (n div 256 mod 256),
                  of_nat (n div 65536 mod 256), of_nat (n div 16777216 mod 256)]"

definition uint16_le :: "nat \<Rightarrow> byte list" where
  "uint16_le n = [of_nat (n mod 256), of_nat (n div 256 mod 256)]"

text \<open>The number a little-endian byte sequence denotes.\<close>

fun le_value :: "byte list \<Rightarrow> nat" where
  "le_value [] = 0"
| "le_value (b # bs) = unat b + 256 * le_value bs"

text \<open>The thirteen header fields, for a sample rate, a channel count and a total length.\<close>

definition wav_header :: "nat \<Rightarrow> nat \<Rightarrow> nat \<Rightarrow> byte list" where
  "wav_header rate chans totalLength =
     ascii ''RIFF'' @ uint32_le (totalLength - 8) @ ascii ''WAVE'' @
     ascii ''fmt '' @ uint32_le 16 @ uint16_le 1 @ uint16_le chans @
     uint32_le rate @ uint32_le (rate * 2 * chans) @ uint16_le (chans * 2) @ uint16_le 16 @
     ascii ''data'' @ uint32_le (totalLength - 44)"

text \<open>
  The sample rule: clamp to \<open>[-1, 1]\<close>, scale by 32768 when \<open>0.5 + s < 0\<close> and by 32767
  otherwise, truncate toward zero; the 16-bit result is stored least significant byte
  first.
\<close>

definition toward_zero :: "rat \<Rightarrow> int" where
  "toward_zero q = (if q < 0 then - \<lfloor>- q\<rfloor> else \<lfloor>q\<rfloor>)"

definition spec_quantize :: "rat \<Rightarrow> int" where
  "spec_quantize s =
     (let c = max (- 1) (min 1 s)
      in toward_zero (if 1 / 2 + c < 0 then c * 32768 else c * 32767))"

definition int16_le :: "int \<Rightarrow> byte list" where
  "int16_le v = [of_int (v mod 256), of_int (v div 256 mod 256)]"

text \<open>
  The sample bytes: frame 0 channel 0, frame 0 channel 1, \<dots>, frame 1 channel 0, \<dots>, for
  the first \<open>frameLimit\<close> frames of channels that all have that many samples.
\<close>

definition spec_samples :: "rat list list \<Rightarrow> nat \<Rightarrow> byte list" where
  "spec_samples chans frameLimit =
     concat (map (\<lambda>f. concat (map (\<lambda>ch. int16_le (spec_quantize (ch ! f))) chans))
                 [0..<frameLimit])"

section \<open>What the encoder writes\<close>

text \<open>
  The state in which \<open>pre\<close> has been written from the start of the buffer, \<open>pos\<close> stands
  behind it and \<open>n\<close> zero bytes follow.
\<close>

definition emitted :: "byte list \<Rightarrow> nat \<Rightarrow> nat \<Rightarrow> enc_state" where
  "emitted pre n k = \<lparr>view = pre @ replicate n 0, pos = length pre, offset = k\<rparr>"

text \<open>The two bytes that \<open>setInt16\<close> stores for the integer \<open>v\<close>.\<close>

definition sample_bytes :: "int \<Rightarrow> byte list" where
  "sample_bytes v = le_bytes 2 (word_of_int v :: 16 word)"

text \<open>What the inner loop writes at frame index \<open>p\<close> for the channels \<open>i, \<dots>, n - 1\<close>.\<close>

definition frame_bytes :: "jsnumber list list \<Rightarrow> nat \<Rightarrow> nat \<Rightarrow> nat \<Rightarrow> byte list" where
  "frame_bytes channels p i n =
     concat (map (\<lambda>j. sample_bytes (quantize (element (channels ! j) p))) [i..<n])"

text \<open>What the outer loop writes for the frame indices \<open>p, \<dots>, len - 1\<close>.\<close>

definition frames_bytes :: "jsnumber list list \<Rightarrow> nat \<Rightarrow> nat \<Rightarrow> nat \<Rightarrow> byte list" where
  "frames_bytes channels n p len = concat (map (\<lambda>q. frame_bytes channels q 0 n) [p..<len])"

section \<open>Example inputs\<close>

text \<open>
  The scenario of the specification: the token \<open>VALIDTOKEN\<close> verifies, the key comes
  from the process environment, and the upstream call returns a text and usage counts.
\<close>

definition example_result :: jsvalue where
  "example_result =
     JObject [(''text'', JString ''hello''),
              (''usageMetadata'', JObject [(''promptTokenCount'', JNumber 3),
                                           (''candidatesTokenCount'', JNumber 1)])]"

definition example_env :: environment where
  "example_env =
     \<lparr>verifyIdToken = (\<lambda>t. t = ''VALIDTOKEN''),
      config_apikey = JUndefined,
      env_GEMINI_API_KEY = JString ''key'',
      generateContent = (\<lambda>k p. Inr example_result),
      typeErrorMessage = JString ''TypeError''\<rparr>"

definition example_request :: request where
  "example_request =
     \<lparr>http_method = ''POST'', authorization = Some ''Bearer VALIDTOKEN'',
      body = JObject [(''model'', JString ''x''), (''contents'', JString ''hi'')]\<rparr>"

text \<open>A CORS preflight request, and a GET request that carries the valid token.\<close>

definition example_preflight :: request where
  "example_preflight = \<lparr>http_method = ''OPTIONS'', authorization = None, body = JUndefined\<rparr>"

definition example_get :: request where
  "example_get = \<lparr>http_method = ''GET'', authorization = Some ''Bearer VALIDTOKEN'', body = JUndefined\<rparr>"

text \<open>A one-channel buffer with the single sample 1.0, and one whose channel is empty.\<close>

definition example_buffer :: AudioBuffer where
  "example_buffer = \<lparr>sampleRate = 8000, channelData = [[Fin 1]]\<rparr>"

definition empty_channel_buffer :: AudioBuffer where
  "empty_channel_buffer = \<lparr>sampleRate = 8000, channelData = [[]]\<rparr>"

section \<open>Lemmas on the encoder\<close>

lemma length_store [simp]: "length (store v p bs) = length v"
  by (induction bs arbitrary: v p) simp_all

lemma store_append:
  "p = length pre \<Longrightarrow> length bs \<le> length rest \<Longrightarrow>
   store (pre @ rest) p bs = pre @ bs @ drop (length bs) rest"
proof (induction bs arbitrary: pre rest p)
  case Nil
  then show ?case by simp
next
  case (Cons b bs)
  then obtain r rs where rest: "rest = r # rs" by (cases rest) auto
  have "store ((pre @ rest)[p := b]) (Suc p) bs = store ((pre @ [b]) @ rs) (Suc p) bs"
    using Cons.prems(1) rest by simp
  also have "\<dots> = (pre @ [b]) @ bs @ drop (length bs) rs"
    using Cons.prems rest by (intro Cons.IH) auto
  finally show ?case using rest by simp
qed

lemma ucast_drop_bit_of_nat:
  "(ucast (drop_bit k (word_of_nat n :: 'a::len word)) :: byte) = of_nat (n div 2 ^ k mod 256)"
  if "k + 8 \<le> LENGTH('a)"
proof (rule bit_word_eqI)
  fix i assume "i < LENGTH(8)"
  then have i: "i < 8" by simp
  with that have "k + i < LENGTH('a)" by simp
  then show "bit (ucast (drop_bit k (word_of_nat n :: 'a word)) :: byte) i
     \<longleftrightarrow> bit (of_nat (n div 2 ^ k mod 256) :: byte) i"
    using i by (simp add: bit_simps bit_of_nat_iff  flip: drop_bit_eq_div take_bit_eq_mod [where n=8, simplified] add: ac_simps)
qed

lemma upt_4: "[0..<4] = [0, 1, 2, 3 :: nat]"
  by (simp add: upt_rec)

lemma upt_2: "[0..<2] = [0, 1 :: nat]"
  by (simp add: upt_rec)

lemma le_bytes_4: "le_bytes 4 w = [ucast w, ucast (drop_bit 8 w), ucast (drop_bit 16 w), ucast (drop_bit 24 w)]"
  by (simp add: le_bytes_def upt_4)

lemma le_bytes_2: "le_bytes 2 w = [ucast w, ucast (drop_bit 8 w)]"
  by (simp add: le_bytes_def upt_2)

lemma le_bytes_32: "le_bytes 4 (word_of_nat n :: 32 word) = uint32_le n"
  using ucast_drop_bit_of_nat [where 'a = 32 and k = 0 and n = n]
    ucast_drop_bit_of_nat [where 'a = 32 and k = 8 and n = n]
    ucast_drop_bit_of_nat [where 'a = 32 and k = 16 and n = n]
    ucast_drop_bit_of_nat [where 'a = 32 and k = 24 and n = n]
  by (simp add: le_bytes_4 uint32_le_def)

lemma le_bytes_16: "le_bytes 2 (word_of_nat n :: 16 word) = uint16_le n"
  using ucast_drop_bit_of_nat [where 'a = 16 and k = 0 and n = n]
    ucast_drop_bit_of_nat [where 'a = 16 and k = 8 and n = n]
  by (simp add: le_bytes_2 uint16_le_def)

lemma length_uint32_le [simp]: "length (uint32_le n) = 4"
  by (simp add: uint32_le_def)

lemma length_uint16_le [simp]: "length (uint16_le n) = 2"
  by (simp add: uint16_le_def)

lemma setUint32_append:
  assumes "view s = pre @ rest" "pos s = length pre" "4 \<le> length rest"
  shows "setUint32 d s = Some \<lparr>view = (pre @ uint32_le d) @ drop 4 rest,
                                 pos = length (pre @ uint32_le d), offset = offset s\<rparr>"
  using assms store_append [where pre = pre and rest = rest and bs = "uint32_le d" and p = "length pre"]
  by (simp add: setUint32_def DataView_setUint32_def le_bytes_32)

lemma setUint16_append:
  assumes "view s = pre @ rest" "pos s = length pre" "2 \<le> length rest"
  shows "setUint16 d s = Some \<lparr>view = (pre @ uint16_le d) @ drop 2 rest,
                                 pos = length (pre @ uint16_le d), offset = offset s\<rparr>"
  using assms store_append [where pre = pre and rest = rest and bs = "uint16_le d" and p = "length pre"]
  by (simp add: setUint16_def DataView_setUint16_def le_bytes_16)

lemma pos_emitted: "pos (emitted pre n k) = length pre"
  by (simp add: emitted_def)

lemma setUint32_emitted:
  "4 \<le> n \<Longrightarrow> setUint32 d (emitted pre n k) = Some (emitted (pre @ uint32_le d) (n - 4) k)"
  by (subst setUint32_append [where pre = pre and rest = "replicate n 0"])
     (simp_all add: emitted_def)

lemma setUint16_emitted:
  "2 \<le> n \<Longrightarrow> setUint16 d (emitted pre n k) = Some (emitted (pre @ uint16_le d) (n - 2) k)"
  by (subst setUint16_append [where pre = pre and rest = "replicate n 0"])
     (simp_all add: emitted_def)

lemma ascii_RIFF: "uint32_le 0x46464952 = ascii ''RIFF''"
  by (simp add: uint32_le_def ascii_def)

lemma ascii_WAVE: "uint32_le 0x45564157 = ascii ''WAVE''"
  by (simp add: uint32_le_def ascii_def)

lemma ascii_fmt: "uint32_le 0x20746d66 = ascii ''fmt ''"
  by (simp add: uint32_le_def ascii_def)

lemma ascii_data: "uint32_le 0x61746164 = ascii ''data''"
  by (simp add: uint32_le_def ascii_def)

lemma length_ascii [simp]: "length (ascii s) = length s"
  by (simp add: ascii_def)

lemma length_wav_header [simp]: "length (wav_header rate chans totalLength) = 44"
  by (simp add: wav_header_def ascii_def)

lemma write_header_emitted:
  "write_header abuffer numOfChan (m + 44) (emitted [] (m + 44) 0)
     = Some (emitted (wav_header (sampleRate abuffer) numOfChan (m + 44)) m 0)"
  by (simp add: write_header_def setUint32_emitted setUint16_emitted pos_emitted wav_header_def
      ascii_RIFF ascii_WAVE ascii_fmt ascii_data)

lemma length_sample_bytes [simp]: "length (sample_bytes v) = 2"
  by (simp add: sample_bytes_def le_bytes_def)

lemma length_frame_bytes [simp]: "length (frame_bytes channels p i n) = 2 * (n - i)"
  by (simp add: frame_bytes_def length_concat comp_def sum_list_triv)

lemma frame_bytes_step:
  "i < n \<Longrightarrow> frame_bytes channels p i n
     = sample_bytes (quantize (element (channels ! i) p)) @ frame_bytes channels p (Suc i) n"
  by (simp add: frame_bytes_def upt_conv_Cons)

lemma frame_bytes_done: "\<not> i < n \<Longrightarrow> frame_bytes channels p i n = []"
  by (simp add: frame_bytes_def)

lemma setInt16_append:
  assumes "v = pre @ rest" "p = length pre" "2 \<le> length rest"
  shows "DataView_setInt16 p x v = Some ((pre @ sample_bytes x) @ drop 2 rest)"
  using assms store_append [where pre = pre and rest = rest and bs = "sample_bytes x" and p = "length pre"]
  by (simp add: DataView_setInt16_def sample_bytes_def [symmetric])

lemma interleave_append:
  "view s = pre @ rest \<Longrightarrow> 44 + offset s = length pre \<Longrightarrow> 2 * (n - i) \<le> length rest \<Longrightarrow>
   interleave channels n i s
     = Some \<lparr>view = pre @ frame_bytes channels (pos s) i n @ drop (2 * (n - i)) rest,
             pos = pos s, offset = offset s + 2 * (n - i)\<rparr>"
proof (induction channels n i s arbitrary: pre rest rule: interleave.induct)
  case (1 channels n i s)
  show ?case
  proof (cases "i < n")
    case True
    let ?x = "quantize (element (channels ! i) (pos s))"
    let ?v = "(pre @ sample_bytes ?x) @ drop 2 rest"
    let ?s = "s\<lparr>view := ?v, offset := offset s + 2\<rparr>"
    from True "1.prems"(3) have two: "2 \<le> length rest" by simp
    have w: "DataView_setInt16 (44 + offset s) ?x (view s) = Some ?v"
      using "1.prems"(1,2) two by (intro setInt16_append) simp_all
    have "interleave channels n (i + 1) ?s
       = Some \<lparr>view = (pre @ sample_bytes ?x) @ frame_bytes channels (pos ?s) (i + 1) n
                       @ drop (2 * (n - (i + 1))) (drop 2 rest),
               pos = pos ?s, offset = offset ?s + 2 * (n - (i + 1))\<rparr>"
      using "1.prems" True by (intro "1.IH" [OF True w]) simp_all
    moreover have "2 * (n - (i + 1)) + 2 = 2 * (n - i)" using True by simp
    ultimately show ?thesis
      using True w by (subst interleave.simps) (simp add: frame_bytes_step)
  next
    case False
    with "1.prems" show ?thesis
      by (subst interleave.simps) (cases s, simp add: frame_bytes_done)
  qed
qed

lemma length_frames_bytes [simp]: "length (frames_bytes channels n p len) = 2 * n * (len - p)"
  by (simp add: frames_bytes_def length_concat comp_def sum_list_triv)

lemma frames_bytes_step:
  "p < len \<Longrightarrow> frames_bytes channels n p len
     = frame_bytes channels p 0 n @ frames_bytes channels n (Suc p) len"
  by (simp add: frames_bytes_def upt_conv_Cons)

lemma frames_bytes_done: "\<not> p < len \<Longrightarrow> frames_bytes channels n p len = []"
  by (simp add: frames_bytes_def)

lemma write_frames_append:
  "view s = pre @ rest \<Longrightarrow> 44 + offset s = length pre \<Longrightarrow>
   2 * n * (len - pos s) \<le> length rest \<Longrightarrow>
   write_frames channels n len s
     = Some \<lparr>view = pre @ frames_bytes channels n (pos s) len @ drop (2 * n * (len - pos s)) rest,
             pos = max (pos s) len, offset = offset s + 2 * n * (len - pos s)\<rparr>"
proof (induction channels n len s arbitrary: pre rest rule: write_frames.induct)
  case (1 channels n len s)
  show ?case
  proof (cases "pos s < len")
    case True
    let ?f = "frame_bytes channels (pos s) 0 n"
    let ?s1 = "\<lparr>view = pre @ ?f @ drop (2 * (n - 0)) rest, pos = pos s, offset = offset s + 2 * (n - 0)\<rparr>"
    let ?s2 = "?s1\<lparr>pos := pos ?s1 + 1\<rparr>"
    from True have split: "2 * n * (len - pos s) = 2 * n + 2 * n * (len - (pos s + 1))"
      by (metis Suc_diff_Suc Suc_eq_plus1 diff_Suc_Suc mult_Suc_right)
    with "1.prems"(3) have room: "2 * (n - 0) \<le> length rest" by simp
    have i: "interleave channels n 0 s = Some ?s1"
      using "1.prems"(1,2) room by (rule interleave_append)
    have "write_frames channels n len ?s2
       = Some \<lparr>view = (pre @ ?f) @ frames_bytes channels n (pos ?s2) len
                       @ drop (2 * n * (len - pos ?s2)) (drop (2 * n) rest),
               pos = max (pos ?s2) len, offset = offset ?s2 + 2 * n * (len - pos ?s2)\<rparr>"
      using "1.prems" split by (intro "1.IH" [OF True i]) simp_all
    then show ?thesis
      using True i split
      by (subst write_frames.simps) (simp add: frames_bytes_step add.commute max_def)
  next
    case False
    with "1.prems" show ?thesis
      by (subst write_frames.simps) (cases s, simp add: frames_bytes_done max_def)
  qed
qed

lemma channels_eq:
  "map (getChannelData abuffer) [0..<numberOfChannels abuffer] = channelData abuffer"
  by (simp add: getChannelData_def [abs_def] numberOfChannels_def map_nth)

lemma bufferToWav_eq:
  "bufferToWav abuffer len =
     Some (wav_header (sampleRate abuffer) (numberOfChannels abuffer)
             (len * numberOfChannels abuffer * 2 + 44)
           @ frames_bytes (channelData abuffer) (numberOfChannels abuffer) 44 len
           @ replicate (2 * numberOfChannels abuffer * (len - (len - 44))) 0)"
proof -
  let ?n = "numberOfChannels abuffer" and ?m = "len * numberOfChannels abuffer * 2"
  let ?h = "wav_header (sampleRate abuffer) ?n (?m + 44)"
  let ?s = "emitted ?h ?m 0"
  have h: "write_header abuffer ?n (?m + 44) \<lparr>view = replicate (?m + 44) 0, pos = 0, offset = 0\<rparr> = Some ?s"
    using write_header_emitted [of abuffer ?n ?m] by (simp add: emitted_def)
  have "2 * ?n * (len - 44) \<le> ?m" by simp
  then have "write_frames (channelData abuffer) ?n len ?s
     = Some \<lparr>view = ?h @ frames_bytes (channelData abuffer) ?n (pos ?s) len
                     @ drop (2 * ?n * (len - pos ?s)) (replicate ?m 0),
             pos = max (pos ?s) len, offset = offset ?s + 2 * ?n * (len - pos ?s)\<rparr>"
    by (intro write_frames_append) (simp_all add: emitted_def)
  moreover have "?m - 2 * ?n * (len - 44) = 2 * ?n * (len - (len - 44))"
    by (simp add: diff_mult_distrib2 mult.commute mult.left_commute)
  ultimately show ?thesis
    using h by (simp add: bufferToWav_def Let_def channels_eq emitted_def)
qed

text \<open>Up to 44 frames, no sample is written at all: the sample area stays zero.\<close>

lemma bufferToWav_upto_44:
  "len \<le> 44 \<Longrightarrow>
   bufferToWav abuffer len =
     Some (wav_header (sampleRate abuffer) (numberOfChannels abuffer)
             (len * numberOfChannels abuffer * 2 + 44)
           @ replicate (2 * numberOfChannels abuffer * len) 0)"
  by (simp add: bufferToWav_eq frames_bytes_done)

text \<open>The two-byte and four-byte encodings denote the value modulo the field width.\<close>

lemma unat_byte_mod: "unat (of_nat (m mod 256) :: byte) = m mod 256"
  by (simp add: unat_of_nat)

lemma le_value_uint16_le: "le_value (uint16_le n) = n mod 65536"
  using mod_mult2_eq [of n 256 256]
  by (simp add: uint16_le_def unat_byte_mod)

lemma le_value_uint32_le: "le_value (uint32_le n) = n mod 4294967296"
proof -
  have d2: "n div 65536 = n div 256 div 256" and d3: "n div 16777216 = n div 256 div 256 div 256"
    by (simp_all add: div_mult2_eq [symmetric])
  show ?thesis
    using mod_mult2_eq [of n 256 16777216] mod_mult2_eq [of "n div 256" 256 65536]
      mod_mult2_eq [of "n div 256 div 256" 256 256]
    by (simp add: uint32_le_def unat_byte_mod d2 d3)
qed

text \<open>On a finite sample the code computes the sample rule; \<open>undefined\<close> and NaN give 0.\<close>

lemma quantize_Fin: "quantize (Some (Fin s)) = spec_quantize s"
proof -
  define c where "c = max (- 1) (min 1 s)"
  define y where "y = (if 1 / 2 + c < 0 then c * 32768 else c * 32767)"
  have c: "- 1 \<le> c" "c \<le> 1" by (simp_all add: c_def)
  have y: "- 32768 \<le> y" "y \<le> 32767" using c by (auto simp: y_def)
  have t: "trunc y = toward_zero y"
    by (auto simp: trunc_def toward_zero_def ceiling_def)
  have "- 32768 \<le> trunc y" "trunc y \<le> 32767"
    using y by (auto simp: trunc_def le_floor_iff floor_le_iff ceiling_le_iff le_ceiling_iff)
  then have w: "sint (word_of_int (trunc y) :: 32 word) = trunc y"
    by (simp add: sint_sbintrunc' signed_take_bit_int_eq_self)
  have m: "Math_max (- 1) (Math_min 1 (ToNumber (Some (Fin s)))) = Fin c"
    by (simp add: ToNumber_def Math_min_def Math_max_def c_def)
  have "quantize (Some (Fin s))
      = ToInt32 (if plus_lt_zero (1 / 2) (Fin c) then times_pos (Fin c) 32768
                 else times_pos (Fin c) 32767)"
    by (simp only: quantize_def m Let_def)
  also have "\<dots> = ToInt32 (Fin y)"
    by (simp add: plus_lt_zero_def times_pos_def y_def)
  finally have "quantize (Some (Fin s)) = sint (word_of_int (trunc y) :: 32 word)"
    by (simp add: ToInt32_def)
  moreover have "spec_quantize s = toward_zero y"
    unfolding spec_quantize_def y_def c_def Let_def ..
  ultimately show ?thesis using w t by simp
qed

lemma quantize_undefined: "quantize None = 0"
  by (simp add: quantize_def ToNumber_def Math_min_def Math_max_def plus_lt_zero_def
      times_pos_def ToInt32_def)

lemma quantize_NaN: "quantize (Some NaN) = 0"
  by (simp add: quantize_def ToNumber_def Math_min_def Math_max_def plus_lt_zero_def
      times_pos_def ToInt32_def)

lemma ucast_drop_bit_of_int:
  "(ucast (drop_bit k (word_of_int v :: 'a::len word)) :: byte) = of_int (v div 2 ^ k mod 256)"
  if "k + 8 \<le> LENGTH('a)"
proof (rule bit_word_eqI)
  fix i assume "i < LENGTH(8)"
  then have i: "i < 8" by simp
  with that have "k + i < LENGTH('a)" by simp
  then show "bit (ucast (drop_bit k (word_of_int v :: 'a word)) :: byte) i
     \<longleftrightarrow> bit (of_int (v div 2 ^ k mod 256) :: byte) i"
    using i by (simp add: bit_simps flip: drop_bit_eq_div take_bit_eq_mod [where n=8, simplified] add: ac_simps)
qed

lemma sample_bytes_eq: "sample_bytes v = int16_le v"
  using ucast_drop_bit_of_int [where 'a = 16 and k = 0 and v = v]
    ucast_drop_bit_of_int [where 'a = 16 and k = 8 and v = v]
  by (simp add: sample_bytes_def le_bytes_2 int16_le_def)

lemma replicate_90: "replicate 90 (0 :: byte) = [0, 0] @ replicate 88 0"
proof -
  have "(90 :: nat) = Suc (Suc 88)" by simp
  then show ?thesis by (simp only: replicate_Suc append_Cons append_Nil)
qed

text \<open>
  The sample area slot by slot: the chunk \<open>q * n + j\<close> of what the outer loop writes
  from frame index \<open>p\<close> on is the sample of channel \<open>j\<close> at index \<open>p + q\<close>, and behind
  the written chunks the buffer is zero.
\<close>

lemma chunk_concat_map:
  "(\<And>x. length (g x) = k) \<Longrightarrow> m < length xs \<Longrightarrow>
   take k (drop (k * m) (concat (map g xs))) = g (xs ! m)"
proof (induction xs arbitrary: m)
  case Nil
  then show ?case by simp
next
  case (Cons x xs)
  show ?case
  proof (cases m)
    case 0
    with Cons.prems(1) [of x] show ?thesis by simp
  next
    case (Suc m')
    with Cons.prems have "m' < length xs" by simp
    from Cons.IH [OF Cons.prems(1) this] Cons.prems(1) [of x] Suc show ?thesis by simp
  qed
qed

lemma concat_map_product:
  "concat (map (\<lambda>x. concat (map (f x) ys)) xs)
     = concat (map (\<lambda>(x, y). f x y) (List.product xs ys))"
  by (induction xs) (simp_all add: comp_def)

lemma frames_bytes_product:
  "frames_bytes channels n p len =
     concat (map (\<lambda>(q, i). sample_bytes (quantize (element (channels ! i) q)))
                 (List.product [p..<len] [0..<n]))"
  unfolding frames_bytes_def frame_bytes_def by (rule concat_map_product)

lemma slot_index: "j < n \<Longrightarrow> q < k \<Longrightarrow> q * n + j < k * (n :: nat)"
proof -
  assume j: "j < n" and q: "q < k"
  have "q * n + j < Suc q * n" using j by simp
  also have "\<dots> \<le> k * n" using q by (intro mult_le_mono1) simp
  finally show ?thesis .
qed

lemma frames_bytes_slot:
  assumes "j < n" and "q < len - p"
  shows "take 2 (drop (2 * (q * n + j)) (frames_bytes channels n p len))
           = sample_bytes (quantize (element (channels ! j) (p + q)))"
proof -
  let ?P = "List.product [p..<len] [0..<n]"
  have m: "q * n + j < length ?P" using slot_index [OF assms] by simp
  have "?P ! (q * n + j) = (p + q, j)"
    using assms m by (simp add: product_nth)
  with chunk_concat_map [where g = "\<lambda>(q, i). sample_bytes (quantize (element (channels ! i) q))"
      and k = 2 and xs = ?P and m = "q * n + j"] m
  show ?thesis by (simp add: frames_bytes_product split_beta)
qed

lemma take_2_zeros: "2 \<le> k \<Longrightarrow> take 2 (replicate k (0 :: byte)) = [0, 0]"
proof -
  assume "2 \<le> k"
  then obtain r where "k = Suc (Suc r)" by (metis add_2_eq_Suc le_Suc_ex)
  then show ?thesis by (simp add: numeral_2_eq_2)
qed

lemma take_2_tail:
  assumes "length F \<le> d" and "d + 2 \<le> length F + z"
  shows "take 2 (drop d (F @ replicate z (0 :: byte))) = [0, 0]"
proof -
  from assms have "2 \<le> z - (d - length F)" by arith
  then have "take 2 (replicate (z - (d - length F)) (0 :: byte)) = [0, 0]"
    by (rule take_2_zeros)
  moreover have "drop d (F @ replicate z 0) = replicate (z - (d - length F)) 0"
    using assms(1) by simp
  ultimately show ?thesis by (simp only:)
qed

section \<open>Claims on the encoder\<close>

text \<open>
  Claim C1. For every buffer and every \<open>len\<close> the encoder returns, and the first 44 bytes
  of its output are the header of the specification: \<open>RIFF\<close>, the total length minus 8,
  \<open>WAVE\<close>, \<open>fmt \<close>, 16, 1, the channel count, the sample rate, the byte rate
  \<open>sampleRate * 2 * channelCount\<close>, the block alignment \<open>channelCount * 2\<close>, 16, \<open>data\<close>
  and the total length minus 44, where the total length is
  \<open>len * channelCount * 2 + 44\<close>; every integer is little-endian, in 4 or 2 bytes (a
  field holds its value modulo \<open>2 ^ 32\<close> or \<open>2 ^ 16\<close>, lemmas \<open>le_value_uint32_le\<close> and
  \<open>le_value_uint16_le\<close>). The bound \<open>len \<le> frameCount\<close> is not needed.
\<close>

theorem bufferToWav_header:
  "\<exists>bs. bufferToWav abuffer len = Some bs \<and>
        take 44 bs = wav_header (sampleRate abuffer) (numberOfChannels abuffer)
                       (len * numberOfChannels abuffer * 2 + 44)"
  by (simp add: bufferToWav_eq)

text \<open>
  Claim C2. The specification asks for the samples of the frames \<open>0, \<dots>, len - 1\<close> from
  byte 44 on. The loop of the source runs \<open>while(pos < len)\<close> with the \<open>pos\<close> that the
  header writes have left at 44, and reads \<open>channels[i][pos]\<close>: it writes the frames
  \<open>44, \<dots>, len - 1\<close> (lemmas \<open>bufferToWav_eq\<close>, \<open>bufferToWav_upto_44\<close>) and leaves the rest of
  the buffer zero.
  For the one-channel buffer with the single sample 1.0 and \<open>len = 1\<close> the two sample bytes
  of the output are \<open>00 00\<close>, where the specification's layout has \<open>FF 7F\<close> (32767).
\<close>

theorem bufferToWav_drops_leading_frames:
  "bufferToWav example_buffer 1 = Some (wav_header 8000 1 46 @ [0, 0]) \<and>
   spec_samples [[1]] 1 = [0xFF, 0x7F]"
  by (simp add: bufferToWav_eq example_buffer_def numberOfChannels_def frames_bytes_done
      spec_samples_def spec_quantize_def toward_zero_def int16_le_def numeral_2_eq_2)

text \<open>
  Claim C3. The quantization of the loop body maps the sample 1.0 to 32767, the sample
  -1.0 to -32768 and the sample 0.0 to 0, and \<open>setInt16\<close> stores them as \<open>FF 7F\<close>,
  \<open>00 80\<close> and \<open>00 00\<close>.
\<close>

theorem quantize_boundaries:
  "quantize (Some (Fin 1)) = 32767 \<and> sample_bytes 32767 = [0xFF, 0x7F] \<and>
   quantize (Some (Fin (- 1))) = - 32768 \<and> sample_bytes (- 32768) = [0x00, 0x80] \<and>
   quantize (Some (Fin 0)) = 0 \<and> sample_bytes 0 = [0x00, 0x00]"
  by (simp add: quantize_def ToNumber_def Math_min_def Math_max_def plus_lt_zero_def
      times_pos_def ToInt32_def trunc_def sample_bytes_def le_bytes_2)

text \<open>
  Claim C4. For every buffer and every \<open>len\<close> the encoder returns a byte sequence of
  length exactly \<open>len * channelCount * 2 + 44\<close>. The bound \<open>len \<le> frameCount\<close> is not
  needed.
\<close>

theorem bufferToWav_length:
  "\<exists>bs. bufferToWav abuffer len = Some bs \<and>
        length bs = len * numberOfChannels abuffer * 2 + 44"
proof -
  have "2 * numberOfChannels abuffer * (len - 44) + 2 * numberOfChannels abuffer * (len - (len - 44))
      = len * numberOfChannels abuffer * 2" 
    by (simp add: add_mult_distrib2 [symmetric])
  then show ?thesis by (simp add: bufferToWav_eq)
qed

text \<open>
  Claim C5, as stated: when a channel has fewer than \<open>len\<close> samples the encoder fails and
  produces no output. It does not: for a buffer whose only channel is empty and
  \<open>len = 45\<close> it returns the header followed by 90 zero bytes.
\<close>

theorem bufferToWav_short_channel_counterexample:
  "[] \<in> set (channelData empty_channel_buffer) \<and> length ([] :: jsnumber list) < 45 \<and>
   bufferToWav empty_channel_buffer 45 = Some (wav_header 8000 1 134 @ replicate 90 0)"
proof -
  have "frames_bytes [[]] 1 44 45 = [0, 0]"
    by (simp add: frames_bytes_step frames_bytes_done frame_bytes_step frame_bytes_done
        element_def quantize_undefined sample_bytes_def le_bytes_2)
  then show ?thesis
    by (simp add: bufferToWav_eq empty_channel_buffer_def numberOfChannels_def replicate_90)
qed

text \<open>
  Claim C5, amended. When a channel has fewer than \<open>len\<close> samples the encoder does not
  fail: it returns a container of the full length \<open>len * channelCount * 2 + 44\<close>, never
  a shorter one, and in that container the 16-bit slot of every frame \<open>p < len\<close> and
  channel \<open>j\<close> for which channel \<open>j\<close> has no sample \<open>p\<close>, the two bytes at
  \<open>44 + 2 * (p * channelCount + j)\<close>, holds the value 0.
\<close>

theorem bufferToWav_short_channel:
  assumes "j < numberOfChannels abuffer" and "p < len"
    and "length (channelData abuffer ! j) \<le> p"
  shows "\<exists>bs. bufferToWav abuffer len = Some bs \<and>
              length bs = len * numberOfChannels abuffer * 2 + 44 \<and>
              take 2 (drop (44 + 2 * (p * numberOfChannels abuffer + j)) bs) = [0, 0]"
proof -
  define n where "n = numberOfChannels abuffer"
  define h where "h = wav_header (sampleRate abuffer) n (len * n * 2 + 44)"
  define F where "F = frames_bytes (channelData abuffer) n 44 len"
  define z where "z = 2 * n * (len - (len - 44))"
  define d where "d = 2 * (p * n + j)"
  have lenF: "length F = 2 * ((len - 44) * n)" by (simp add: F_def mult.commute)
  have "2 * n * (len - 44) + 2 * n * (len - (len - 44)) = len * n * 2"
    by (simp add: add_mult_distrib2 [symmetric])
  then have total: "length F + z = len * n * 2"
    by (simp add: F_def z_def)
  have j: "j < n" using assms(1) by (simp add: n_def)
  have slot: "take 2 (drop d (F @ replicate z 0)) = [0, 0]"
  proof (cases "p < len - 44")
    case True
    have "d + 2 \<le> length F"
      using slot_index [OF j True] by (simp add: lenF d_def)
    then have "take 2 (drop d (F @ replicate z 0)) = take 2 (drop d F)" by simp
    also have "\<dots> = sample_bytes (quantize (element (channelData abuffer ! j) (44 + p)))"
      unfolding d_def F_def using j True by (rule frames_bytes_slot)
    also have "\<dots> = [0, 0]"
      using assms(3) by (simp add: element_def quantize_undefined sample_bytes_def le_bytes_2)
    finally show ?thesis .
  next
    case False
    then have "(len - 44) * n \<le> p * n" by (intro mult_le_mono1) simp
    then have a: "length F \<le> d" unfolding lenF d_def by arith
    have "d + 2 \<le> length F + z"
      using slot_index [OF j assms(2)] by (simp add: total d_def)
    with a show ?thesis by (rule take_2_tail)
  qed
  have "drop (44 + d) (h @ F @ replicate z 0) = drop d (F @ replicate z 0)"
    by (simp add: h_def)
  with slot have "take 2 (drop (44 + d) (h @ F @ replicate z 0)) = [0, 0]" by simp
  moreover have "bufferToWav abuffer len = Some (h @ F @ replicate z 0)"
    by (simp add: bufferToWav_eq h_def F_def z_def n_def)
  moreover have "length (h @ F @ replicate z 0) = len * n * 2 + 44"
    using total by (simp add: h_def)
  ultimately show ?thesis by (simp add: d_def n_def)
qed

theorem bufferToWav_short_channel_witness:
  "0 < numberOfChannels empty_channel_buffer \<and> (0 :: nat) < 45 \<and>
   length (channelData empty_channel_buffer ! 0) \<le> 0 \<and>
   (\<exists>bs. bufferToWav empty_channel_buffer 45 = Some bs \<and> length bs = 134 \<and>
         take 2 (drop 44 bs) = [0, 0])"
  using bufferToWav_short_channel [of 0 empty_channel_buffer 0 45]
  by (simp add: empty_channel_buffer_def numberOfChannels_def)

section \<open>Lemmas on the relay\<close>

text \<open>
  A header that starts with \<open>Bearer \<close> always yields a token, and a body whose field
  can be read at all lets every field be read.
\<close>

lemma split_js_nonempty: "split_js sep acc s \<noteq> []"
  by (induction sep acc s rule: split_js.induct) simp_all

lemma idToken_of_Some: "prefix ''Bearer '' authHeader \<Longrightarrow> \<exists>t. idToken_of authHeader = Some t"
proof -
  assume "prefix ''Bearer '' authHeader"
  then obtain r where r: "authHeader = ''Bearer '' @ r" by (auto simp: prefix_def)
  obtain x xs where "split_js ''Bearer '' [] r = x # xs"
    using split_js_nonempty [of "''Bearer ''" "[]" r] by (cases "split_js ''Bearer '' [] r") auto
  then show ?thesis by (simp add: r idToken_of_def index_js_def)
qed

lemma getProp_defined: "getProp b k = Some v \<Longrightarrow> \<exists>w. getProp b k' = Some w"
  by (cases b) simp_all

lemma toUpperCase_POST: "toUpperCase ''POST'' \<noteq> ''OPTIONS''"
  by (simp add: toUpperCase_def)

lemma callGemini_POST: "http_method request = ''POST'' \<Longrightarrow> callGemini env request = handler env request"
  by (simp add: callGemini_def corsHandler_def toUpperCase_POST)

text \<open>The specification's scenario, evaluated.\<close>

lemma idToken_example: "idToken_of ''Bearer VALIDTOKEN'' = Some ''VALIDTOKEN''"
  by (simp add: idToken_of_def index_js_def)

lemma example_outcome:
  "callGemini example_env example_request =
     \<lparr>status = 200,
      content = JObject [(''text'', JString ''hello''), (''candidates'', JUndefined),
                         (''usageMetadata'', JObject [(''promptTokenCount'', JNumber 3),
                                                      (''candidatesTokenCount'', JNumber 1)])],
      calls = [VerifyIdToken (Some ''VALIDTOKEN''),
               GenerateContent (JString ''key'')
                 (JObject [(''model'', JString ''x''), (''contents'', JString ''hi''),
                           (''config'', JObject [])])]\<rparr>"
  by (simp add: callGemini_POST example_request_def handler_def idToken_example example_env_def
      apiKey_of_def or_js_def destructure_def params_of_def extract_fields_def example_result_def
      send_def)

section \<open>Claims on the relay\<close>

text \<open>
  Claim C6. Whenever the upstream generation call is among the external calls of a
  request, the calls are exactly the token verification followed by the generation
  call, and the verification has succeeded. A POST request without an
  \<open>Authorization\<close> header is answered 401 with no external call at all.
\<close>

theorem relay_generate_after_verify:
  "(GenerateContent k p \<in> set (calls (callGemini env request)) \<longrightarrow>
      (\<exists>t. verifyIdToken env t \<and>
           calls (callGemini env request) = [VerifyIdToken (Some t), GenerateContent k p])) \<and>
   (http_method request = ''POST'' \<and> authorization request = None \<longrightarrow>
      status (callGemini env request) = 401 \<and> calls (callGemini env request) = [])"
  by (auto simp: callGemini_def corsHandler_def handler_def send_def failed_def Let_def toUpperCase_POST
      split: option.splits sum.splits if_splits prod.splits)

theorem relay_generate_after_verify_witness:
  "GenerateContent (JString ''key'')
       (JObject [(''model'', JString ''x''), (''contents'', JString ''hi''), (''config'', JObject [])])
     \<in> set (calls (callGemini example_env example_request)) \<and>
   (\<exists>t. verifyIdToken example_env t \<and>
        calls (callGemini example_env example_request)
          = [VerifyIdToken (Some t),
             GenerateContent (JString ''key'')
               (JObject [(''model'', JString ''x''), (''contents'', JString ''hi''),
                         (''config'', JObject [])])]) \<and>
   http_method (example_request\<lparr>authorization := None\<rparr>) = ''POST'' \<and>
   authorization (example_request\<lparr>authorization := None\<rparr>) = None \<and>
   status (callGemini example_env (example_request\<lparr>authorization := None\<rparr>)) = 401 \<and>
   calls (callGemini example_env (example_request\<lparr>authorization := None\<rparr>)) = []"
  using relay_generate_after_verify [of "JString ''key''"
      "JObject [(''model'', JString ''x''), (''contents'', JString ''hi''), (''config'', JObject [])]"
      example_env example_request]
    relay_generate_after_verify [of "JString ''key''"
      "JObject [(''model'', JString ''x''), (''contents'', JString ''hi''), (''config'', JObject [])]"
      example_env "example_request\<lparr>authorization := None\<rparr>"]
  by (simp add: example_outcome) (simp add: example_request_def)

text \<open>
  Claim C7. A POST request whose bearer token verifies, with the API key configured,
  and whose body lacks \<open>model\<close> or lacks \<open>contents\<close> (reading the field gives
  \<open>undefined\<close>) is answered 400, and the only external call is the token verification:
  the generation call is not made.
\<close>

theorem relay_missing_parameter:
  assumes "http_method request = ''POST''"
    and "authorization request = Some authHeader"
    and "prefix ''Bearer '' authHeader"
    and "idToken_of authHeader = Some t"
    and "verifyIdToken env t"
    and "truthy (apiKey_of env)"
    and "getProp (body request) ''model'' = Some JUndefined \<or>
         getProp (body request) ''contents'' = Some JUndefined"
  shows "status (callGemini env request) = 400 \<and>
         content (callGemini env request)
           = JObject [(''error'', JString ''Missing required parameters: model and contents'')] \<and>
         calls (callGemini env request) = [VerifyIdToken (Some t)]"
proof -
  from assms(7) obtain model contents config where
    d: "destructure (body request) = Some (model, contents, config)"
    and u: "model = JUndefined \<or> contents = JUndefined"
    by (cases "body request") (auto simp: destructure_def split: option.splits)
  from assms(3) have ne: "authHeader \<noteq> []" by auto
  from u have "\<not> truthy model \<or> \<not> truthy contents" by auto
  with assms(1-6) d ne show ?thesis
    by (simp add: callGemini_POST handler_def send_def)
qed

theorem relay_missing_parameter_witness:
  "status (callGemini example_env (example_request\<lparr>body := JObject [(''contents'', JString ''hi'')]\<rparr>)) = 400 \<and>
   calls (callGemini example_env (example_request\<lparr>body := JObject [(''contents'', JString ''hi'')]\<rparr>))
     = [VerifyIdToken (Some ''VALIDTOKEN'')]"
  using relay_missing_parameter [of "example_request\<lparr>body := JObject [(''contents'', JString ''hi'')]\<rparr>"
      "''Bearer VALIDTOKEN''" "''VALIDTOKEN''" example_env]
  by (simp add: example_request_def example_env_def idToken_example apiKey_of_def or_js_def)

text \<open>
  Claim C8, as stated: every request whose method is not POST is answered 405. An
  \<open>OPTIONS\<close> request is not: the CORS middleware answers the preflight with 204 and the
  callback with the method check does not run.
\<close>

theorem relay_method_not_allowed_counterexample:
  "http_method example_preflight \<noteq> ''POST'' \<and>
   status (callGemini example_env example_preflight) = 204 \<and>
   status (callGemini example_env example_preflight) \<noteq> 405"
  by (simp add: example_preflight_def callGemini_def corsHandler_def toUpperCase_def)

text \<open>
  Claim C8, amended. A request whose method is not POST causes no token verification
  and no upstream call, whatever its headers and body; it is answered 405, unless its
  method is \<open>OPTIONS\<close> (in any letter case), the CORS preflight, which the middleware
  answers with 204.
\<close>

theorem relay_method_not_allowed:
  "http_method request \<noteq> ''POST'' \<Longrightarrow>
   status (callGemini env request)
     = (if toUpperCase (http_method request) = ''OPTIONS'' then 204 else 405) \<and>
   calls (callGemini env request) = []"
  by (simp add: callGemini_def corsHandler_def handler_def send_def)

theorem relay_method_not_allowed_witness:
  "http_method example_get \<noteq> ''POST'' \<and> toUpperCase (http_method example_get) \<noteq> ''OPTIONS'' \<and>
   status (callGemini example_env example_get) = 405 \<and>
   calls (callGemini example_env example_get) = []"
  using relay_method_not_allowed [of example_get example_env]
  by (simp add: example_get_def toUpperCase_def)

text \<open>
  Claim C9. A POST request that passes authentication, the configuration check and the
  payload validation, and whose upstream call returns a result, is answered 200 with
  the object of exactly the three fields \<open>text\<close>, \<open>candidates\<close> and \<open>usageMetadata\<close>, each
  the value read from the result (\<open>undefined\<close> where the result has no such field).
\<close>

theorem relay_success:
  assumes "http_method request = ''POST''"
    and "authorization request = Some authHeader"
    and "prefix ''Bearer '' authHeader"
    and "idToken_of authHeader = Some t"
    and "verifyIdToken env t"
    and "truthy (apiKey_of env)"
    and "destructure (body request) = Some (model, contents, config)"
    and "truthy model" and "truthy contents"
    and "generateContent env (apiKey_of env) (params_of model contents config) = Inr result"
    and "getProp result ''text'' = Some text"
    and "getProp result ''candidates'' = Some candidates"
    and "getProp result ''usageMetadata'' = Some usageMetadata"
  shows "status (callGemini env request) = 200 \<and>
         content (callGemini env request)
           = JObject [(''text'', text), (''candidates'', candidates),
                      (''usageMetadata'', usageMetadata)] \<and>
         calls (callGemini env request)
           = [VerifyIdToken (Some t),
              GenerateContent (apiKey_of env) (params_of model contents config)]"
proof -
  from assms(3) have "authHeader \<noteq> []" by auto
  with assms show ?thesis
    by (simp add: callGemini_POST handler_def send_def extract_fields_def)
qed

theorem relay_success_witness:
  "http_method example_request = ''POST'' \<and>
   destructure (body example_request) = Some (JString ''x'', JString ''hi'', JUndefined) \<and>
   generateContent example_env (apiKey_of example_env)
     (params_of (JString ''x'') (JString ''hi'') JUndefined) = Inr example_result \<and>
   status (callGemini example_env example_request) = 200 \<and>
   content (callGemini example_env example_request)
     = JObject [(''text'', JString ''hello''), (''candidates'', JUndefined),
                (''usageMetadata'', JObject [(''promptTokenCount'', JNumber 3),
                                             (''candidatesTokenCount'', JNumber 1)])]"
  using relay_success [of example_request "''Bearer VALIDTOKEN''" "''VALIDTOKEN''" example_env
      "JString ''x''" "JString ''hi''" JUndefined example_result "JString ''hello''" JUndefined
      "JObject [(''promptTokenCount'', JNumber 3), (''candidatesTokenCount'', JNumber 1)]"]
  by (simp add: example_request_def example_env_def idToken_example apiKey_of_def or_js_def
      destructure_def example_result_def)

text \<open>
  Claim C10. A POST request whose \<open>Authorization\<close> header does not start with
  \<open>Bearer \<close> has the outcome of the same request without the header: 401 with the
  "no token" error, and no external call, so the token verification is not invoked.
\<close>

theorem relay_malformed_authorization:
  assumes "http_method request = ''POST''"
    and "authorization request = Some authHeader"
    and "\<not> prefix ''Bearer '' authHeader"
  shows "callGemini env request = callGemini env (request\<lparr>authorization := None\<rparr>) \<and>
         status (callGemini env request) = 401 \<and>
         content (callGemini env request)
           = JObject [(''error'', JString ''Unauthorized - No token provided'')] \<and>
         calls (callGemini env request) = []"
  using assms by (simp add: callGemini_POST handler_def send_def)

theorem relay_malformed_authorization_witness:
  "\<not> prefix ''Bearer '' ''Basic dXNlcjpwdw=='' \<and>
   status (callGemini example_env (example_request\<lparr>authorization := Some ''Basic dXNlcjpwdw==''\<rparr>)) = 401 \<and>
   calls (callGemini example_env (example_request\<lparr>authorization := Some ''Basic dXNlcjpwdw==''\<rparr>)) = []"
  using relay_malformed_authorization [of "example_request\<lparr>authorization := Some ''Basic dXNlcjpwdw==''\<rparr>"
      "''Basic dXNlcjpwdw==''" example_env, THEN conjunct2]
  by (simp add: example_request_def)

end
